theory Spec2Isabelle
  imports Main "HOL-Library.Word"
begin

section \<open>The command dispatcher of AceRoutine (\<^verbatim>\<open>cli/CommandDispatcher.h\<close>)\<close>

text \<open>
  A shallow embedding of class \<^verbatim>\<open>CommandDispatcher\<close>. A C string is the list of its
  characters before the terminating NUL. Everything the class does to the outside world
  is recorded, in order, as a list of events: text written to \<^verbatim>\<open>Serial\<close> and calls
  of registered command handlers (function pointers, whose bodies belong to the
  application). The type \<open>'h\<close> stands for the handler pointers.
\<close>

subsection \<open>Data\<close>

datatype 'h event =
    Print string                     \<comment> \<open>\<^verbatim>\<open>Serial.print(s)\<close>\<close>
  | Println string                   \<comment> \<open>\<^verbatim>\<open>Serial.println(s)\<close>; \<^verbatim>\<open>Serial.println()\<close> is \<open>Println []\<close>\<close>
  | Invoke 'h int "string list"      \<comment> \<open>\<^verbatim>\<open>handler(argc, argv)\<close>\<close>

record 'h DispatchRecord =
  handler :: 'h
  name :: string
  helpString :: string

text \<open>
  The members of the class. \<^verbatim>\<open>mSerialReader\<close> is the line source; its answers are
  inputs of the model (see \<open>getLine\<close> below).
\<close>

record 'h CommandDispatcher =
  mNumCommands :: "8 word"
  mDispatchTable :: "'h DispatchRecord list"

text \<open>
  The constructor stores its arguments. Its documentation asks that \<^verbatim>\<open>numCommands\<close> is
  the number of entries of \<^verbatim>\<open>dispatchTable\<close>; reading \<^verbatim>\<open>mDispatchTable[i]\<close> is defined
  only below that number.
\<close>

definition table_ok :: "'h CommandDispatcher \<Rightarrow> bool" where
  "table_ok d = (unat (mNumCommands d) = length (mDispatchTable d))"

definition ARGV_SIZE :: "8 word" where
  "ARGV_SIZE = 10"

definition STATUS_SUCCESS :: "8 word" where
  "STATUS_SUCCESS = 0"

definition STATUS_BUFFER_OVERFLOW :: "8 word" where
  "STATUS_BUFFER_OVERFLOW = 1"

definition STATUS_FLUSH_TO_EOL :: "8 word" where
  "STATUS_FLUSH_TO_EOL = 2"

text \<open>
  Modelled from the spec: the header declares \<^verbatim>\<open>static const char DELIMS[]\<close> and the file
  that defines it is not among the sources; the tokenizer splits "on a fixed delimiter
  set (space and tab)".
\<close>

definition DELIMS :: string where
  "DELIMS = [CHR '' '', CHR 0x09]"

subsection \<open>Text of the serial port\<close>

text \<open>
  The characters that reach the port: \<^verbatim>\<open>println\<close> of the Arduino core ends the line with
  carriage return and line feed. What a handler prints is its own business.
\<close>

fun serial_text :: "'h event list \<Rightarrow> string" where
  "serial_text [] = []"
| "serial_text (Print s # es) = s @ serial_text es"
| "serial_text (Println s # es) = s @ [CHR 0x0D, CHR 0x0A] @ serial_text es"
| "serial_text (Invoke h n a # es) = serial_text es"

fun invocations :: "'h event list \<Rightarrow> ('h \<times> int \<times> string list) list" where
  "invocations [] = []"
| "invocations (Invoke h n a # es) = (h, n, a) # invocations es"
| "invocations (Print s # es) = invocations es"
| "invocations (Println s # es) = invocations es"

subsection \<open>printLineError\<close>

definition printLineError :: "string \<Rightarrow> 8 word \<Rightarrow> 'h event list" where
  "printLineError line statusCode =
     (if statusCode = STATUS_BUFFER_OVERFLOW then
        [Print ''BufferOverflow: '', Println line]
      else if statusCode = STATUS_FLUSH_TO_EOL then
        [Print ''FlushToEOL: '', Println line]
      else
        [Println ''UnknownError''])"

subsection \<open>helpCommandHandler\<close>

text \<open>
  The two loops of \<^verbatim>\<open>helpCommandHandler\<close>, with their counter \<^verbatim>\<open>uint8_t i\<close>. The first
  looks the command up and prints its usage line, the second lists the names.
\<close>

function help_usage :: "'h CommandDispatcher \<Rightarrow> string \<Rightarrow> 8 word \<Rightarrow> 'h event list" where
  "help_usage d cmd i =
     (if i < mNumCommands d then
        (let record = mDispatchTable d ! unat i in
         if name record = cmd then
           [Print ''Usage: '', Print cmd, Print '' '', Println (helpString record)]
         else help_usage d cmd (i + 1))
      else [Print ''Unknown command: '', Println cmd])"
  by pat_completeness auto
termination
proof (relation "measure (\<lambda>(d, cmd, i). unat (mNumCommands d) - unat i)")
  show "wf (measure (\<lambda>(d :: 'h CommandDispatcher, cmd :: string, i :: 8 word).
              unat (mNumCommands d) - unat i))"
    by simp
next
  fix d :: "'h CommandDispatcher" and cmd :: string and i :: "8 word"
    and x :: "'h DispatchRecord"
  assume lt: "i < mNumCommands d"
  then have "unat (mNumCommands d) - unat (i + 1) < unat (mNumCommands d) - unat i"
    by unat_arith
  then show "((d, cmd, i + 1), (d, cmd, i))
      \<in> measure (\<lambda>(d, cmd, i). unat (mNumCommands d) - unat i)"
    by simp
qed

function help_names :: "'h CommandDispatcher \<Rightarrow> 8 word \<Rightarrow> 'h event list" where
  "help_names d i =
     (if i < mNumCommands d then
        (let record = mDispatchTable d ! unat i in
         [Print (name record), Print '' ''] @ help_names d (i + 1))
      else [])"
  by pat_completeness auto
termination
proof (relation "measure (\<lambda>(d, i). unat (mNumCommands d) - unat i)")
  show "wf (measure (\<lambda>(d :: 'h CommandDispatcher, i :: 8 word).
              unat (mNumCommands d) - unat i))"
    by simp
next
  fix d :: "'h CommandDispatcher" and i :: "8 word" and x :: "'h DispatchRecord"
  assume lt: "i < mNumCommands d"
  then have "unat (mNumCommands d) - unat (i + 1) < unat (mNumCommands d) - unat i"
    by unat_arith
  then show "((d, i + 1), (d, i)) \<in> measure (\<lambda>(d, i). unat (mNumCommands d) - unat i)"
    by simp
qed

definition helpCommandHandler ::
  "'h CommandDispatcher \<Rightarrow> int \<Rightarrow> string list \<Rightarrow> 'h event list" where
  "helpCommandHandler d argc argv =
     (if argc = 2 then
        (let cmd = argv ! 1 in
         if cmd = ''help'' then [Println ''Usage: help [command]'']
         else help_usage d cmd 0)
      else
        [Println ''Usage: help [command]'', Print ''Commands: help '']
          @ help_names d 0 @ [Println []])"

subsection \<open>tokenize\<close>

text \<open>
  \<^verbatim>\<open>strtok\<close> of the C library, on the text that is left of the line: it skips the
  delimiters in front, and answers no token at the end of the text; otherwise the token
  runs up to the next delimiter, which it overwrites with NUL, and the scan resumes
  behind that byte. The second component is the text left for the next call
  (\<^verbatim>\<open>strtok(nullptr, ...)\<close>).
\<close>

definition strtok :: "string \<Rightarrow> string \<Rightarrow> string option \<times> string" where
  "strtok s delims =
     (let s1 = dropWhile (\<lambda>c. c \<in> set delims) s in
      if s1 = [] then (None, [])
      else (Some (takeWhile (\<lambda>c. c \<notin> set delims) s1),
            drop 1 (dropWhile (\<lambda>c. c \<notin> set delims) s1)))"

text \<open>
  The loop of \<^verbatim>\<open>tokenize\<close>. \<open>argv\<close> holds the slots written so far, \<open>argv[0]\<close> to
  \<open>argv[argc - 1]\<close>; the slots of the C array from \<open>argc\<close> on are never written.
\<close>

function tokenize_loop ::
  "string option \<Rightarrow> string \<Rightarrow> int \<Rightarrow> int \<Rightarrow> string list \<Rightarrow> int \<times> string list" where
  "tokenize_loop token rest argc argvSize argv =
     (case token of
        None \<Rightarrow> (argc, argv)
      | Some t \<Rightarrow>
          if argc < argvSize then
            (case strtok rest DELIMS of
               (token', rest') \<Rightarrow> tokenize_loop token' rest' (argc + 1) argvSize (argv @ [t]))
          else (argc, argv))"
  by pat_completeness auto
termination
  by (relation "measure (\<lambda>(token, rest, argc, argvSize, argv). nat (argvSize - argc))") auto

definition tokenize :: "string \<Rightarrow> int \<Rightarrow> int \<times> string list" where
  "tokenize line argvSize =
     (case strtok line DELIMS of
        (token, rest) \<Rightarrow> tokenize_loop token rest 0 argvSize [])"

subsection \<open>runCommand\<close>

function lookup_loop ::
  "'h CommandDispatcher \<Rightarrow> int \<Rightarrow> string list \<Rightarrow> string \<Rightarrow> 8 word \<Rightarrow> 'h event list" where
  "lookup_loop d argc argv cmd i =
     (if i < mNumCommands d then
        (let record = mDispatchTable d ! unat i in
         if name record = cmd then [Invoke (handler record) argc argv]
         else lookup_loop d argc argv cmd (i + 1))
      else [Print ''Unknown command: '', Println cmd])"
  by pat_completeness auto
termination
proof (relation "measure (\<lambda>(d, argc, argv, cmd, i). unat (mNumCommands d) - unat i)")
  show "wf (measure (\<lambda>(d :: 'h CommandDispatcher, argc :: int, argv :: string list,
              cmd :: string, i :: 8 word). unat (mNumCommands d) - unat i))"
    by simp
next
  fix d :: "'h CommandDispatcher" and argc :: int and argv :: "string list"
    and cmd :: string and i :: "8 word" and x :: "'h DispatchRecord"
  assume lt: "i < mNumCommands d"
  then have "unat (mNumCommands d) - unat (i + 1) < unat (mNumCommands d) - unat i"
    by unat_arith
  then show "((d, argc, argv, cmd, i + 1), (d, argc, argv, cmd, i))
      \<in> measure (\<lambda>(d, argc, argv, cmd, i). unat (mNumCommands d) - unat i)"
    by simp
qed

definition runCommand :: "'h CommandDispatcher \<Rightarrow> string \<Rightarrow> 'h event list" where
  "runCommand d line =
     (case tokenize line (uint ARGV_SIZE) of
        (argc, argv) \<Rightarrow>
          if argc = 0 then []
          else
            (let cmd = argv ! 0 in
             if cmd = ''help'' then helpCommandHandler d argc argv
             else lookup_loop d argc argv cmd 0))"

subsection \<open>runRoutine\<close>

text \<open>
  Modelled from the spec: \<^verbatim>\<open>SerialReader::getLine\<close> and the macros \<^verbatim>\<open>COROUTINE_LOOP\<close> and
  \<^verbatim>\<open>COROUTINE_AWAIT\<close> are not among the sources. A poll of the line source answers "no
  line yet", and the coroutine stays suspended where it is, or a line with its flag
  \<^verbatim>\<open>isError\<close>: set for a line that did not fit the buffer (the spec's \<open>Overflow\<close>), clear
  for a whole line (the spec's \<open>Success\<close>). \<^verbatim>\<open>COROUTINE_LOOP\<close> repeats its body forever.
\<close>

datatype getLine = NoLine | Line bool string

abbreviation Success :: "string \<Rightarrow> getLine" where
  "Success line \<equiv> Line False line"

abbreviation Overflow :: "string \<Rightarrow> getLine" where
  "Overflow line \<equiv> Line True line"

text \<open>
  The coroutine is suspended at one of its two \<^verbatim>\<open>COROUTINE_AWAIT\<close>s: the one at the head
  of the loop, or the one inside \<^verbatim>\<open>while (isError)\<close>.
\<close>

datatype state = AWAIT_LINE | RECOVER_OVERFLOW

text \<open>The calls that the body of \<^verbatim>\<open>runRoutine\<close> makes between two suspensions.\<close>

datatype call = PrintLineError string "8 word" | RunCommand string

fun runRoutine_calls :: "state \<Rightarrow> getLine \<Rightarrow> state \<times> call list" where
  "runRoutine_calls AWAIT_LINE NoLine = (AWAIT_LINE, [])"
| "runRoutine_calls AWAIT_LINE (Line isError line) =
     (if isError then (RECOVER_OVERFLOW, [PrintLineError line STATUS_BUFFER_OVERFLOW])
      else (AWAIT_LINE, [RunCommand line]))"
| "runRoutine_calls RECOVER_OVERFLOW NoLine = (RECOVER_OVERFLOW, [])"
| "runRoutine_calls RECOVER_OVERFLOW (Line isError line) =
     (if isError then RECOVER_OVERFLOW else AWAIT_LINE,
      [PrintLineError line STATUS_FLUSH_TO_EOL])"

fun perform :: "'h CommandDispatcher \<Rightarrow> call \<Rightarrow> 'h event list" where
  "perform d (PrintLineError line statusCode) = printLineError line statusCode"
| "perform d (RunCommand line) = runCommand d line"

definition runRoutine ::
  "'h CommandDispatcher \<Rightarrow> state \<Rightarrow> getLine \<Rightarrow> state \<times> 'h event list" where
  "runRoutine d s p =
     (case runRoutine_calls s p of (s', cs) \<Rightarrow> (s', concat (map (perform d) cs)))"

text \<open>The coroutine run against the successive answers of the line source.\<close>

fun run :: "'h CommandDispatcher \<Rightarrow> state \<Rightarrow> getLine list \<Rightarrow> state \<times> 'h event list" where
  "run d s [] = (s, [])"
| "run d s (p # ps) =
     (case runRoutine d s p of
        (s', out) \<Rightarrow> (case run d s' ps of (s'', out') \<Rightarrow> (s'', out @ out')))"

fun calls :: "state \<Rightarrow> getLine list \<Rightarrow> call list" where
  "calls s [] = []"
| "calls s (p # ps) =
     (case runRoutine_calls s p of (s', cs) \<Rightarrow> cs @ calls s' ps)"

subsection \<open>Tokens, as the specification describes them\<close>

text \<open>
  A token is a maximal run of non-delimiter characters of the line. The scan reads the
  line character by character; \<open>cur\<close> is the run read so far.
\<close>

fun split_runs :: "string \<Rightarrow> string \<Rightarrow> string \<Rightarrow> string list" where
  "split_runs delims cur [] = (if cur = [] then [] else [cur])"
| "split_runs delims cur (c # cs) =
     (if c \<in> set delims then (if cur = [] then [] else [cur]) @ split_runs delims [] cs
      else split_runs delims (cur @ [c]) cs)"

definition tokens_of :: "string \<Rightarrow> string list" where
  "tokens_of line = split_runs DELIMS [] line"

declare tokenize_loop.simps [simp del] lookup_loop.simps [simp del]
  help_usage.simps [simp del] help_names.simps [simp del]

section \<open>Auxiliary facts\<close>

subsection \<open>The loops over the dispatch table\<close>

lemma unat_succ_below: "i < (n :: 8 word) \<Longrightarrow> unat (i + 1) = Suc (unat i)"
  by unat_arith

lemma lookup_loop_find:
  assumes "table_ok d"
  shows "lookup_loop d argc argv cmd i =
    (case find (\<lambda>r. name r = cmd) (drop (unat i) (mDispatchTable d)) of
       Some r \<Rightarrow> [Invoke (handler r) argc argv]
     | None \<Rightarrow> [Print ''Unknown command: '', Println cmd])"
  using assms
proof (induction d argc argv cmd i rule: lookup_loop.induct)
  case (1 d argc argv cmd i)
  show ?case
  proof (cases "i < mNumCommands d")
    case True
    then have len: "unat i < length (mDispatchTable d)"
      using "1.prems" by (simp add: table_ok_def word_less_nat_alt)
    have suc: "unat (i + 1) = Suc (unat i)"
      using True by (rule unat_succ_below)
    have dr: "drop (unat i) (mDispatchTable d)
        = mDispatchTable d ! unat i # drop (Suc (unat i)) (mDispatchTable d)"
      using len by (simp add: Cons_nth_drop_Suc)
    show ?thesis
    proof (cases "name (mDispatchTable d ! unat i) = cmd")
      case hit: True
      show ?thesis
        using True hit by (subst lookup_loop.simps) (simp add: dr)
    next
      case miss: False
      have "lookup_loop d argc argv cmd i = lookup_loop d argc argv cmd (i + 1)"
        using True miss by (subst lookup_loop.simps) simp
      also have "\<dots> = (case find (\<lambda>r. name r = cmd) (drop (unat (i + 1)) (mDispatchTable d)) of
         Some r \<Rightarrow> [Invoke (handler r) argc argv]
       | None \<Rightarrow> [Print ''Unknown command: '', Println cmd])"
        using "1.IH" [OF True refl miss "1.prems"] .
      finally show ?thesis
        using miss by (simp add: dr suc)
    qed
  next
    case False
    then have "length (mDispatchTable d) \<le> unat i"
      using "1.prems" by (simp add: table_ok_def word_less_nat_alt)
    then show ?thesis
      using False by (subst lookup_loop.simps) simp
  qed
qed

lemma help_usage_find:
  assumes "table_ok d"
  shows "help_usage d cmd i =
    (case find (\<lambda>r. name r = cmd) (drop (unat i) (mDispatchTable d)) of
       Some r \<Rightarrow> [Print ''Usage: '', Print cmd, Print '' '', Println (helpString r)]
     | None \<Rightarrow> [Print ''Unknown command: '', Println cmd])"
  using assms
proof (induction d cmd i rule: help_usage.induct)
  case (1 d cmd i)
  show ?case
  proof (cases "i < mNumCommands d")
    case True
    then have len: "unat i < length (mDispatchTable d)"
      using "1.prems" by (simp add: table_ok_def word_less_nat_alt)
    have suc: "unat (i + 1) = Suc (unat i)"
      using True by (rule unat_succ_below)
    have dr: "drop (unat i) (mDispatchTable d)
        = mDispatchTable d ! unat i # drop (Suc (unat i)) (mDispatchTable d)"
      using len by (simp add: Cons_nth_drop_Suc)
    show ?thesis
    proof (cases "name (mDispatchTable d ! unat i) = cmd")
      case hit: True
      show ?thesis
        using True hit by (subst help_usage.simps) (simp add: dr)
    next
      case miss: False
      have "help_usage d cmd i = help_usage d cmd (i + 1)"
        using True miss by (subst help_usage.simps) simp
      also have "\<dots> = (case find (\<lambda>r. name r = cmd) (drop (unat (i + 1)) (mDispatchTable d)) of
         Some r \<Rightarrow> [Print ''Usage: '', Print cmd, Print '' '', Println (helpString r)]
       | None \<Rightarrow> [Print ''Unknown command: '', Println cmd])"
        using "1.IH" [OF True refl miss "1.prems"] .
      finally show ?thesis
        using miss by (simp add: dr suc)
    qed
  next
    case False
    then have "length (mDispatchTable d) \<le> unat i"
      using "1.prems" by (simp add: table_ok_def word_less_nat_alt)
    then show ?thesis
      using False by (subst help_usage.simps) simp
  qed
qed

lemma help_names_drop:
  assumes "table_ok d"
  shows "help_names d i =
    concat (map (\<lambda>r. [Print (name r), Print '' '']) (drop (unat i) (mDispatchTable d)))"
  using assms
proof (induction d i rule: help_names.induct)
  case (1 d i)
  show ?case
  proof (cases "i < mNumCommands d")
    case True
    then have len: "unat i < length (mDispatchTable d)"
      using "1.prems" by (simp add: table_ok_def word_less_nat_alt)
    have suc: "unat (i + 1) = Suc (unat i)"
      using True by (rule unat_succ_below)
    have dr: "drop (unat i) (mDispatchTable d)
        = mDispatchTable d ! unat i # drop (Suc (unat i)) (mDispatchTable d)"
      using len by (simp add: Cons_nth_drop_Suc)
    have "help_names d i = [Print (name (mDispatchTable d ! unat i)), Print '' '']
        @ help_names d (i + 1)"
      using True by (subst help_names.simps) simp
    then show ?thesis
      using "1.IH" [OF True refl "1.prems"] by (simp add: dr suc)
  next
    case False
    then have "length (mDispatchTable d) \<le> unat i"
      using "1.prems" by (simp add: table_ok_def word_less_nat_alt)
    then show ?thesis
      using False by (subst help_names.simps) simp
  qed
qed

subsection \<open>The tokenizer and the runs of a line\<close>

lemma split_runs_nondelims:
  "\<forall>c\<in>set a. c \<notin> set D \<Longrightarrow> split_runs D cur (a @ s) = split_runs D (cur @ a) s"
  by (induction a arbitrary: cur) auto

lemma split_runs_delims:
  "\<forall>c\<in>set a. c \<in> set D \<Longrightarrow>
   split_runs D cur (a @ s) = (if a = [] then split_runs D cur s
      else (if cur = [] then [] else [cur]) @ split_runs D [] s)"
  by (induction a arbitrary: cur) auto

lemma split_runs_only_delims:
  "\<forall>c\<in>set a. c \<in> set D \<Longrightarrow> split_runs D [] a = []"
  by (induction a) auto

lemma split_runs_cur:
  "cur \<noteq> [] \<Longrightarrow> split_runs D cur s = 
     (cur @ takeWhile (\<lambda>c. c \<notin> set D) s) # split_runs D [] (drop 1 (dropWhile (\<lambda>c. c \<notin> set D) s))"
  by (induction s arbitrary: cur) auto

lemma split_runs_strtok:
  "split_runs D [] s =
     (case strtok s D of
        (None, rest) \<Rightarrow> []
      | (Some t, rest) \<Rightarrow> t # split_runs D [] rest)"
proof (induction s)
  case Nil
  then show ?case by (simp add: strtok_def)
next
  case (Cons c s)
  show ?case
  proof (cases "c \<in> set D")
    case True
    then have "strtok (c # s) D = strtok s D"
      by (simp add: strtok_def)
    then show ?thesis using Cons True by simp
  next
    case False
    then show ?thesis
      using split_runs_cur [of "[c]" D s] by (simp add: strtok_def)
  qed
qed

lemma tokenize_loop_runs:
  "tokenize_loop token rest argc argvSize argv =
     (let ts = take (nat (argvSize - argc))
                 (case token of None \<Rightarrow> [] | Some t \<Rightarrow> t # split_runs DELIMS [] rest)
      in (argc + int (length ts), argv @ ts))"
proof (induction token rest argc argvSize argv rule: tokenize_loop.induct)
  case (1 token rest argc argvSize argv)
  show ?case
  proof (cases token)
    case None
    then show ?thesis by (subst tokenize_loop.simps) simp
  next
    case (Some t)
    show ?thesis
    proof (cases "argc < argvSize")
      case False
      then show ?thesis using Some by (subst tokenize_loop.simps) simp
    next
      case True
      obtain token' rest' where st: "strtok rest DELIMS = (token', rest')"
        by (cases "strtok rest DELIMS")
      have eq: "split_runs DELIMS [] rest =
          (case token' of None \<Rightarrow> [] | Some t' \<Rightarrow> t' # split_runs DELIMS [] rest')"
        using st by (simp add: split_runs_strtok [of DELIMS rest] split: option.splits)
      have n: "nat (argvSize - argc) = Suc (nat (argvSize - (argc + 1)))"
        using True by simp
      have "tokenize_loop token rest argc argvSize argv
          = tokenize_loop token' rest' (argc + 1) argvSize (argv @ [t])"
        using Some True st by (subst tokenize_loop.simps) simp
      also note "1.IH" [OF Some True st [symmetric]]
      finally show ?thesis
        using Some by (simp add: Let_def eq n)
    qed
  qed
qed

lemma tokenize_tokens:
  "tokenize line argvSize =
     (int (length (take (nat argvSize) (tokens_of line))), take (nat argvSize) (tokens_of line))"
proof -
  obtain token rest where st: "strtok line DELIMS = (token, rest)"
    by (cases "strtok line DELIMS")
  have eq: "split_runs DELIMS [] line =
          (case token of None \<Rightarrow> [] | Some t \<Rightarrow> t # split_runs DELIMS [] rest)"
    using st by (simp add: split_runs_strtok [of DELIMS line] split: option.splits)
  show ?thesis
    by (simp add: tokenize_def st tokenize_loop_runs tokens_of_def eq Let_def)
qed

lemma split_runs_valid:
  "set cur \<inter> set D = {} \<Longrightarrow> t \<in> set (split_runs D cur s) \<Longrightarrow> t \<noteq> [] \<and> set t \<inter> set D = {}"
proof (induction s arbitrary: cur)
  case Nil
  then show ?case by (simp split: if_splits)
next
  case (Cons c s)
  show ?case
  proof (cases "c \<in> set D")
    case True
    then have "t = cur \<and> cur \<noteq> [] \<or> t \<in> set (split_runs D [] s)"
      using Cons.prems(2) by (simp split: if_splits)
    then show ?thesis
      using Cons.IH [of "[]"] Cons.prems(1) by auto
  next
    case False
    then have "t \<in> set (split_runs D (cur @ [c]) s)"
      using Cons.prems(2) by simp
    moreover have "set (cur @ [c]) \<inter> set D = {}"
      using False Cons.prems(1) by simp
    ultimately show ?thesis
      by (rule Cons.IH [rotated])
  qed
qed

lemma split_runs_trailing:
  "set q \<subseteq> set D \<Longrightarrow> split_runs D cur (s @ q) = split_runs D cur s"
proof (induction s arbitrary: cur)
  case Nil
  then have "\<forall>c\<in>set q. c \<in> set D" by auto
  then show ?case
    by (cases q) (auto simp: split_runs_only_delims)
next
  case (Cons c s)
  then show ?case by simp
qed

lemma split_runs_leading:
  "set p \<subseteq> set D \<Longrightarrow> split_runs D [] (p @ s) = split_runs D [] s"
  by (induction p) auto

lemma split_runs_collapse:
  "c \<in> set D \<Longrightarrow> set q \<subseteq> set D \<Longrightarrow>
   split_runs D cur (l1 @ [c] @ q @ l2) = split_runs D cur (l1 @ [c] @ l2)"
  by (induction l1 arbitrary: cur) (simp_all add: split_runs_leading)

lemma split_runs_cur_nonempty: "cur \<noteq> [] \<Longrightarrow> split_runs D cur s \<noteq> []"
  by (induction s arbitrary: cur) auto

lemma split_runs_Nil_iff: "split_runs D [] s = [] \<longleftrightarrow> set s \<subseteq> set D"
  by (induction s) (auto simp: split_runs_cur_nonempty)

lemma tokens_of_valid: "t \<in> set (tokens_of line) \<Longrightarrow> t \<noteq> [] \<and> set t \<inter> set DELIMS = {}"
  unfolding tokens_of_def by (rule split_runs_valid [of "[]"]) simp_all

lemma tokens_example: "tokens_of (''a  b'' @ [CHR 0x09] @ ''c'') = [''a'', ''b'', ''c'']"
  by (simp add: tokens_of_def DELIMS_def)

subsection \<open>Running a command and the loop\<close>

lemma runCommand_tokens:
  "runCommand d line =
     (let argv = take 10 (tokens_of line); argc = int (length argv) in
      if argv = [] then []
      else if hd argv = ''help'' then helpCommandHandler d argc argv
      else lookup_loop d argc argv (hd argv) 0)"
proof -
  have n: "nat (uint ARGV_SIZE) = 10"
    by (simp add: ARGV_SIZE_def)
  show ?thesis
    by (cases "take 10 (tokens_of line)")
      (simp_all only: runCommand_def tokenize_tokens n Let_def, simp_all)
qed

lemma runRoutine_Success: "runRoutine d AWAIT_LINE (Success line) = (AWAIT_LINE, runCommand d line)"
  by (simp add: runRoutine_def)

lemma run_Cons_Success:
  "run d AWAIT_LINE (Success line # ps)
     = (fst (run d AWAIT_LINE ps), runCommand d line @ snd (run d AWAIT_LINE ps))"
  by (simp add: runRoutine_Success split: prod.splits)

lemma help_usage_no_invoke: "invocations (help_usage d cmd i) = []"
proof (induction d cmd i rule: help_usage.induct)
  case (1 d cmd i)
  show ?case
  proof (cases "i < mNumCommands d \<and> name (mDispatchTable d ! unat i) \<noteq> cmd")
    case True
    then have "help_usage d cmd i = help_usage d cmd (i + 1)"
      by (subst help_usage.simps) simp
    then show ?thesis
      using "1.IH" True by simp
  next
    case False
    then show ?thesis
      by (subst help_usage.simps) (auto simp: Let_def)
  qed
qed

lemma help_names_no_invoke: "invocations (help_names d i) = []"
proof (induction d i rule: help_names.induct)
  case (1 d i)
  show ?case
  proof (cases "i < mNumCommands d")
    case True
    then have "help_names d i = [Print (name (mDispatchTable d ! unat i)), Print '' '']
        @ help_names d (i + 1)"
      by (subst help_names.simps) simp
    then show ?thesis
      using "1.IH" True by simp
  next
    case False
    then show ?thesis
      by (subst help_names.simps) simp
  qed
qed

lemma invocations_append: "invocations (xs @ ys) = invocations xs @ invocations ys"
  by (induction xs rule: invocations.induct) simp_all

lemma helpCommandHandler_no_invoke: "invocations (helpCommandHandler d argc argv) = []"
  by (simp add: helpCommandHandler_def Let_def help_usage_no_invoke help_names_no_invoke
      invocations_append)

lemma tokens_of_name_x_y:
  assumes "n \<noteq> []" and "set n \<inter> set DELIMS = {}"
  shows "tokens_of (n @ '' x y'') = [n, ''x'', ''y'']"
proof -
  have "\<forall>c\<in>set n. c \<notin> set DELIMS"
    using assms(2) by auto
  then have "split_runs DELIMS [] (n @ '' x y'') = split_runs DELIMS ([] @ n) '' x y''"
    by (rule split_runs_nondelims)
  then show ?thesis
    using assms(1) by (simp add: tokens_of_def DELIMS_def)
qed

lemma find_first_index:
  assumes "i < length xs" and "P (xs ! i)" and "\<forall>j<i. \<not> P (xs ! j)"
  shows "find P xs = Some (xs ! i)"
  using assms by (auto simp: find_Some_iff)

lemma tokens_of_help_arg:
  assumes "n \<noteq> []" and "set n \<inter> set DELIMS = {}"
  shows "tokens_of (''help '' @ n) = [''help'', n]"
proof -
  have "\<forall>c\<in>set n. c \<notin> set DELIMS"
    using assms(2) by auto
  then have "split_runs DELIMS [] (n @ []) = split_runs DELIMS ([] @ n) []"
    by (rule split_runs_nondelims)
  then have "split_runs DELIMS [] n = [n]"
    using assms(1) by simp
  then show ?thesis
    by (simp add: tokens_of_def DELIMS_def)
qed

lemma serial_text_names:
  "serial_text (concat (map (\<lambda>r. [Print (name r), Print '' '']) rs) @ es)
     = concat (map (\<lambda>r. name r @ '' '') rs) @ serial_text es"
  by (induction rs) simp_all

lemma run_Cons:
  "run d s (p # ps)
     = (fst (run d (fst (runRoutine d s p)) ps),
        snd (runRoutine d s p) @ snd (run d (fst (runRoutine d s p)) ps))"
  by (simp split: prod.splits)

lemma run_append:
  "run d s (ps @ qs)
     = (fst (run d (fst (run d s ps)) qs), snd (run d s ps) @ snd (run d (fst (run d s ps)) qs))"
  by (induction ps arbitrary: s) (simp_all add: run_Cons del: run.simps(2))

lemma runRoutine_Success_state: "fst (runRoutine d s (Success line)) = AWAIT_LINE"
  by (cases s) (simp_all add: runRoutine_def)

lemma run_ends_Success: "fst (run d s (ps @ [Success line])) = AWAIT_LINE"
  by (simp add: run_append run_Cons runRoutine_Success_state del: run.simps(2))

lemma run_calls: "snd (run d s ps) = concat (map (perform d) (calls s ps))"
proof (induction ps arbitrary: s)
  case Nil
  show ?case by simp
next
  case (Cons p ps)
  obtain s' cs where st: "runRoutine_calls s p = (s', cs)"
    by (cases "runRoutine_calls s p")
  show ?case
    by (simp add: run_Cons runRoutine_def st Cons.IH del: run.simps(2))
qed

lemma calls_status:
  "PrintLineError line statusCode \<in> set (calls s ps) \<Longrightarrow>
   statusCode = STATUS_BUFFER_OVERFLOW \<or> statusCode = STATUS_FLUSH_TO_EOL"
proof (induction ps arbitrary: s)
  case Nil
  then show ?case by simp
next
  case (Cons p ps)
  obtain s' cs where st: "runRoutine_calls s p = (s', cs)"
    by (cases "runRoutine_calls s p")
  from Cons.prems st have "PrintLineError line statusCode \<in> set cs
      \<or> PrintLineError line statusCode \<in> set (calls s' ps)"
    by simp
  then show ?case
  proof
    assume "PrintLineError line statusCode \<in> set cs"
    then show ?thesis
      using st by (cases s; cases p) (auto split: if_splits)
  next
    assume "PrintLineError line statusCode \<in> set (calls s' ps)"
    then show ?thesis
      by (rule Cons.IH)
  qed
qed

lemma run_idle: "run d s (replicate k NoLine) = (s, [])"
  by (induction k) (cases s, simp_all add: run_Cons runRoutine_def del: run.simps(2))+

lemma run_idle_then:
  "run d s (replicate k NoLine @ ps) = run d s ps"
  by (simp add: run_append [of d s "replicate k NoLine" ps] run_idle)

lemma run_recovery_polls:
  "set qs \<subseteq> insert NoLine (range Overflow) \<Longrightarrow>
   fst (run d RECOVER_OVERFLOW qs) = RECOVER_OVERFLOW"
proof (induction qs)
  case Nil
  show ?case by simp
next
  case (Cons q qs)
  then have "fst (runRoutine d RECOVER_OVERFLOW q) = RECOVER_OVERFLOW"
    by (auto simp: runRoutine_def)
  then show ?case
    using Cons by (simp add: run_Cons del: run.simps(2))
qed

lemma run_recovery_output:
  "run d RECOVER_OVERFLOW (map Overflow fs @ [Success rest])
     = (AWAIT_LINE, concat (map (\<lambda>f. [Print ''FlushToEOL: '', Println f]) (fs @ [rest])))"
  by (induction fs)
    (simp_all add: run_Cons runRoutine_def printLineError_def STATUS_BUFFER_OVERFLOW_def
      STATUS_FLUSH_TO_EOL_def del: run.simps(2))

lemma runCommand_registered:
  assumes "table_ok d"
    and "tokens_of line = t # ts"
    and "t \<noteq> ''help''"
    and "i < length (mDispatchTable d)"
    and "name (mDispatchTable d ! i) = t"
    and "\<forall>j<i. name (mDispatchTable d ! j) \<noteq> t"
  shows "runCommand d line
    = [Invoke (handler (mDispatchTable d ! i)) (int (length (take 10 (t # ts)))) (take 10 (t # ts))]"
proof -
  have "find (\<lambda>r. name r = t) (mDispatchTable d) = Some (mDispatchTable d ! i)"
    using assms(4,5,6) by (rule find_first_index)
  then have "lookup_loop d argc argv t 0 = [Invoke (handler (mDispatchTable d ! i)) argc argv]"
    for argc argv
    by (simp add: lookup_loop_find [OF assms(1)])
  then show ?thesis
    using assms(2,3) by (simp add: runCommand_tokens)
qed

section \<open>The claims\<close>

text \<open>
  C1 (as the code has it). From the initial state, the answers \<open>Overflow abc\<close>,
  \<open>Overflow def\<close>, \<open>Success ghi\<close> print three diagnostics: \<open>BufferOverflow: abc\<close>,
  \<open>FlushToEOL: def\<close> and \<open>FlushToEOL: ghi\<close>. The fragment \<open>ghi\<close> is printed as flushed
  and is not run as a command; the coroutine is then at the head of its loop and runs the
  next whole line as a command.
\<close>

theorem overflow_recovery_prints_each_fragment:
  "run d AWAIT_LINE [Overflow ''abc'', Overflow ''def'', Success ''ghi'']
     = (AWAIT_LINE,
        [Print ''BufferOverflow: '', Println ''abc'',
         Print ''FlushToEOL: '', Println ''def'',
         Print ''FlushToEOL: '', Println ''ghi''])
   \<and> calls AWAIT_LINE [Overflow ''abc'', Overflow ''def'', Success ''ghi'']
     = [PrintLineError ''abc'' STATUS_BUFFER_OVERFLOW,
        PrintLineError ''def'' STATUS_FLUSH_TO_EOL,
        PrintLineError ''ghi'' STATUS_FLUSH_TO_EOL]
   \<and> run d AWAIT_LINE [Overflow ''abc'', Overflow ''def'', Success ''ghi'', Success line]
     = (AWAIT_LINE,
        [Print ''BufferOverflow: '', Println ''abc'',
         Print ''FlushToEOL: '', Println ''def'',
         Print ''FlushToEOL: '', Println ''ghi''] @ runCommand d line)"
  by (simp add: runRoutine_def printLineError_def STATUS_BUFFER_OVERFLOW_def
      STATUS_FLUSH_TO_EOL_def)

theorem overflow_recovery_prints_each_fragment_witness:
  "run \<lparr>mNumCommands = 0, mDispatchTable = [] :: nat DispatchRecord list\<rparr> AWAIT_LINE
       [Overflow ''abc'', Overflow ''def'', Success ''ghi'', Success ''go'']
     = (AWAIT_LINE,
        [Print ''BufferOverflow: '', Println ''abc'',
         Print ''FlushToEOL: '', Println ''def'',
         Print ''FlushToEOL: '', Println ''ghi'',
         Print ''Unknown command: '', Println ''go''])"
proof -
  have "runCommand \<lparr>mNumCommands = 0, mDispatchTable = [] :: nat DispatchRecord list\<rparr> ''go''
      = [Print ''Unknown command: '', Println ''go'']"
    by code_simp
  with overflow_recovery_prints_each_fragment [of "\<lparr>mNumCommands = 0, mDispatchTable = [] :: nat DispatchRecord list\<rparr>" "''go''"]
  show ?thesis
    by simp
qed

text \<open>
  C1 as stated asks for two diagnostics and none for \<open>ghi\<close>. The loop prints the fetched
  line after every fetch inside \<^verbatim>\<open>while (isError)\<close>, the last one included.
\<close>

theorem overflow_recovery_two_diagnostics_counterexample:
  "snd (run \<lparr>mNumCommands = 0, mDispatchTable = [] :: nat DispatchRecord list\<rparr> AWAIT_LINE
          [Overflow ''abc'', Overflow ''def'', Success ''ghi''])
     \<noteq> [Print ''BufferOverflow: '', Println ''abc'', Print ''FlushToEOL: '', Println ''def'']
   \<and> snd (run \<lparr>mNumCommands = 0, mDispatchTable = [] :: nat DispatchRecord list\<rparr> AWAIT_LINE
          [Overflow ''abc'', Overflow ''def'', Success ''ghi''])
     = [Print ''BufferOverflow: '', Println ''abc'', Print ''FlushToEOL: '', Println ''def'',
        Print ''FlushToEOL: '', Println ''ghi'']"
  by code_simp

text \<open>
  C2 (as the code has it). Take an entry of the table that is the first one of its name,
  whose name is one token (not empty, without space or tab) and is not \<open>help\<close>. The line
  \<open><name> x y\<close> calls the handler of that entry with \<open>argc = 3\<close> and
  \<open>argv = [<name>, x, y]\<close>, and nothing else happens: no other handler is called.
\<close>

theorem dispatch_invokes_first_match:
  assumes "table_ok d"
    and "i < length (mDispatchTable d)"
    and "\<forall>j<i. name (mDispatchTable d ! j) \<noteq> name (mDispatchTable d ! i)"
    and "name (mDispatchTable d ! i) \<noteq> []"
    and "set (name (mDispatchTable d ! i)) \<inter> set DELIMS = {}"
    and "name (mDispatchTable d ! i) \<noteq> ''help''"
  shows "runCommand d (name (mDispatchTable d ! i) @ '' x y'')
       = [Invoke (handler (mDispatchTable d ! i)) 3 [name (mDispatchTable d ! i), ''x'', ''y'']]
    \<and> invocations (snd (run d AWAIT_LINE [Success (name (mDispatchTable d ! i) @ '' x y'')]))
       = [(handler (mDispatchTable d ! i), 3, [name (mDispatchTable d ! i), ''x'', ''y''])]"
proof -
  let ?r = "mDispatchTable d ! i"
  have t: "tokens_of (name ?r @ '' x y'') = [name ?r, ''x'', ''y'']"
    using assms(4,5) by (rule tokens_of_name_x_y)
  have "find (\<lambda>r. name r = name ?r) (mDispatchTable d) = Some ?r"
    using assms(2) _ assms(3) by (rule find_first_index) simp
  then have "lookup_loop d argc argv (name ?r) 0 = [Invoke (handler ?r) argc argv]"
    for argc argv
    by (simp add: lookup_loop_find [OF assms(1)])
  then have a: "runCommand d (name ?r @ '' x y'')
       = [Invoke (handler ?r) 3 [name ?r, ''x'', ''y'']]"
    using assms(6) by (simp add: runCommand_tokens t)
  show ?thesis
    by (simp add: a runRoutine_Success)
qed

theorem dispatch_invokes_first_match_witness:
  "table_ok \<lparr>mNumCommands = 2, mDispatchTable =
       [\<lparr>handler = 7 :: nat, name = ''list'', helpString = ''[all]''\<rparr>,
        \<lparr>handler = 8, name = ''echo'', helpString = ''args''\<rparr>]\<rparr>
   \<and> runCommand \<lparr>mNumCommands = 2, mDispatchTable =
       [\<lparr>handler = 7 :: nat, name = ''list'', helpString = ''[all]''\<rparr>,
        \<lparr>handler = 8, name = ''echo'', helpString = ''args''\<rparr>]\<rparr> ''echo x y''
     = [Invoke 8 3 [''echo'', ''x'', ''y'']]"
proof -
  let ?d = "\<lparr>mNumCommands = 2, mDispatchTable =
       [\<lparr>handler = 7 :: nat, name = ''list'', helpString = ''[all]''\<rparr>,
        \<lparr>handler = 8, name = ''echo'', helpString = ''args''\<rparr>]\<rparr>"
  have ok: "table_ok ?d"
    by (simp add: table_ok_def)
  have h2: "1 < length (mDispatchTable ?d)"
    by simp
  have h3: "\<forall>j<1. name (mDispatchTable ?d ! j) \<noteq> name (mDispatchTable ?d ! 1)"
    by simp
  have h4: "name (mDispatchTable ?d ! 1) \<noteq> []"
    by simp
  have h5: "set (name (mDispatchTable ?d ! 1)) \<inter> set DELIMS = {}"
    by (simp add: DELIMS_def)
  have h6: "name (mDispatchTable ?d ! 1) \<noteq> ''help''"
    by simp
  from dispatch_invokes_first_match [OF ok h2 h3 h4 h5 h6] ok show ?thesis
    by simp
qed

text \<open>
  C2 as stated speaks of every entry. An entry whose name holds a delimiter is never
  found: the line is cut into tokens first, and the scan compares names with the first
  token.
\<close>

theorem dispatch_name_with_delimiter_counterexample:
  "table_ok \<lparr>mNumCommands = 1, mDispatchTable =
       [\<lparr>handler = 7 :: nat, name = ''a b'', helpString = ''''\<rparr>]\<rparr>
   \<and> name \<lparr>handler = 7 :: nat, name = ''a b'', helpString = ''''\<rparr> \<noteq> ''help''
   \<and> runCommand \<lparr>mNumCommands = 1, mDispatchTable =
       [\<lparr>handler = 7 :: nat, name = ''a b'', helpString = ''''\<rparr>]\<rparr> (''a b'' @ '' x y'')
     = [Print ''Unknown command: '', Println ''a'']
   \<and> runCommand \<lparr>mNumCommands = 1, mDispatchTable =
       [\<lparr>handler = 7 :: nat, name = ''a b'', helpString = ''''\<rparr>]\<rparr> (''a b'' @ '' x y'')
     \<noteq> [Invoke 7 3 [''a b'', ''x'', ''y'']]"
  by code_simp

text \<open>
  C3. The tokenizer splits the line on the delimiters, space and tab. The tokens are the
  maximal runs of non-delimiter characters (at most \<open>ARGV_SIZE\<close> of them), none is empty
  and none holds a delimiter; a run of delimiters counts as one delimiter, and delimiters
  in front of the line and behind it change nothing. The line \<^verbatim>\<open>a  b<TAB>c\<close> has the
  three tokens \<open>a\<close>, \<open>b\<close>, \<open>c\<close>; the empty line and a line of delimiters have none.
\<close>

theorem tokenize_splits_on_delimiters:
  "tokenize line (uint ARGV_SIZE)
       = (int (length (take 10 (tokens_of line))), take 10 (tokens_of line))
   \<and> (\<forall>t \<in> set (snd (tokenize line (uint ARGV_SIZE))). t \<noteq> [] \<and> set t \<inter> set DELIMS = {})
   \<and> (c \<in> set DELIMS \<and> set g \<subseteq> set DELIMS \<longrightarrow>
        tokenize (l1 @ [c] @ g @ l2) (uint ARGV_SIZE) = tokenize (l1 @ [c] @ l2) (uint ARGV_SIZE))
   \<and> (set p \<subseteq> set DELIMS \<and> set q \<subseteq> set DELIMS \<longrightarrow>
        tokenize (p @ line @ q) (uint ARGV_SIZE) = tokenize line (uint ARGV_SIZE))
   \<and> tokenize (''a  b'' @ [CHR 0x09] @ ''c'') (uint ARGV_SIZE) = (3, [''a'', ''b'', ''c''])
   \<and> tokenize [] (uint ARGV_SIZE) = (0, [])
   \<and> (set line \<subseteq> set DELIMS \<longrightarrow> tokenize line (uint ARGV_SIZE) = (0, []))"
proof -
  have n: "nat (uint ARGV_SIZE) = 10"
    by (simp add: ARGV_SIZE_def)
  have b: "tokenize line (uint ARGV_SIZE)
       = (int (length (take 10 (tokens_of line))), take 10 (tokens_of line))"
    by (simp only: tokenize_tokens n)
  have c: "\<forall>t \<in> set (snd (tokenize line (uint ARGV_SIZE))). t \<noteq> [] \<and> set t \<inter> set DELIMS = {}"
    using tokens_of_valid by (auto simp only: b snd_conv dest!: in_set_takeD)
  have d: "tokenize (l1 @ [c] @ g @ l2) (uint ARGV_SIZE) = tokenize (l1 @ [c] @ l2) (uint ARGV_SIZE)"
    if "c \<in> set DELIMS" "set g \<subseteq> set DELIMS"
    using that by (simp only: tokenize_tokens tokens_of_def split_runs_collapse)
  have e: "tokenize (p @ line @ q) (uint ARGV_SIZE) = tokenize line (uint ARGV_SIZE)"
    if "set p \<subseteq> set DELIMS" "set q \<subseteq> set DELIMS"
    using that by (simp only: tokenize_tokens tokens_of_def split_runs_leading split_runs_trailing)
  have f: "tokenize (''a  b'' @ [CHR 0x09] @ ''c'') (uint ARGV_SIZE) = (3, [''a'', ''b'', ''c''])"
    by (simp only: tokenize_tokens tokens_example n) simp
  have g: "tokenize [] (uint ARGV_SIZE) = (0, [])"
    by (simp add: tokenize_tokens tokens_of_def)
  have h: "tokenize line (uint ARGV_SIZE) = (0, [])" if "set line \<subseteq> set DELIMS"
    using that split_runs_Nil_iff [of DELIMS line] by (simp add: tokenize_tokens tokens_of_def)
  from b c d e f g h show ?thesis
    by blast
qed

theorem tokenize_splits_on_delimiters_witness:
  "CHR '' '' \<in> set DELIMS \<and> set [CHR 0x09, CHR '' ''] \<subseteq> set DELIMS
   \<and> tokenize (''ls'' @ [CHR '' ''] @ [CHR 0x09, CHR '' ''] @ ''-l'') (uint ARGV_SIZE)
       = tokenize (''ls'' @ [CHR '' ''] @ ''-l'') (uint ARGV_SIZE)
   \<and> tokenize ([CHR 0x09, CHR '' ''] @ ''ls -l'' @ [CHR 0x09, CHR '' '']) (uint ARGV_SIZE)
       = tokenize ''ls -l'' (uint ARGV_SIZE)
   \<and> tokenize ''ls -l'' (uint ARGV_SIZE) = (2, [''ls'', ''-l''])
   \<and> tokenize [CHR 0x09, CHR '' ''] (uint ARGV_SIZE) = (0, [])"
  using tokenize_splits_on_delimiters [of "''ls -l''" "CHR '' ''" "[CHR 0x09, CHR '' '']"
      "''ls''" "''-l''" "[CHR 0x09, CHR '' '']" "[CHR 0x09, CHR '' '']"]
    tokenize_splits_on_delimiters [of "[CHR 0x09, CHR '' '']"]
  by (simp add: DELIMS_def tokens_of_def)

text \<open>
  C4. A line of more than \<open>ARGV_SIZE\<close> = 10 tokens gives exactly its first ten tokens, in
  order. Nothing tells of the cut: the line is run exactly as any line with the same first
  ten tokens is, and what follows them leaves no trace in the events.
\<close>

theorem tokenize_truncates_at_ARGV_SIZE:
  assumes "uint ARGV_SIZE < int (length (tokens_of line))"
  shows "tokenize line (uint ARGV_SIZE) = (uint ARGV_SIZE, take (unat ARGV_SIZE) (tokens_of line))
    \<and> length (snd (tokenize line (uint ARGV_SIZE))) = unat ARGV_SIZE
    \<and> (\<forall>line'. take (unat ARGV_SIZE) (tokens_of line') = take (unat ARGV_SIZE) (tokens_of line) \<longrightarrow>
          runCommand d line = runCommand d line'
        \<and> runRoutine d AWAIT_LINE (Success line) = runRoutine d AWAIT_LINE (Success line'))"
proof -
  have n: "nat (uint ARGV_SIZE) = 10" and u: "unat ARGV_SIZE = 10" and i: "uint ARGV_SIZE = 10"
    by (simp_all add: ARGV_SIZE_def)
  from assms have len: "10 < length (tokens_of line)"
    by (simp add: i)
  then have a: "tokenize line (uint ARGV_SIZE) = (uint ARGV_SIZE, take (unat ARGV_SIZE) (tokens_of line))"
    by (simp add: tokenize_tokens n u i)
  have b: "length (snd (tokenize line (uint ARGV_SIZE))) = unat ARGV_SIZE"
    using len by (simp add: a u)
  have c: "runCommand d line = runCommand d line'"
    if "take (unat ARGV_SIZE) (tokens_of line') = take (unat ARGV_SIZE) (tokens_of line)" for line'
    using that by (simp only: runCommand_tokens u)
  have e: "runRoutine d AWAIT_LINE (Success line) = runRoutine d AWAIT_LINE (Success line')"
    if "take (unat ARGV_SIZE) (tokens_of line') = take (unat ARGV_SIZE) (tokens_of line)" for line'
    using c [OF that] by (simp only: runRoutine_Success)
  from a b c e show ?thesis
    by blast
qed

theorem tokenize_truncates_at_ARGV_SIZE_witness:
  "tokenize ''a b c d e f g h i j k l'' (uint ARGV_SIZE)
     = (10, [''a'', ''b'', ''c'', ''d'', ''e'', ''f'', ''g'', ''h'', ''i'', ''j''])
   \<and> runCommand \<lparr>mNumCommands = 0, mDispatchTable = [] :: nat DispatchRecord list\<rparr>
        ''a b c d e f g h i j k l''
     = runCommand \<lparr>mNumCommands = 0, mDispatchTable = []\<rparr> ''a b c d e f g h i j''
   \<and> runCommand \<lparr>mNumCommands = 0, mDispatchTable = [] :: nat DispatchRecord list\<rparr>
        ''a b c d e f g h i j k l'' = [Print ''Unknown command: '', Println ''a'']"
proof -
  have t1: "tokens_of ''a b c d e f g h i j k l''
      = [''a'', ''b'', ''c'', ''d'', ''e'', ''f'', ''g'', ''h'', ''i'', ''j'', ''k'', ''l'']"
    by (simp add: tokens_of_def DELIMS_def)
  have t2: "tokens_of ''a b c d e f g h i j''
      = [''a'', ''b'', ''c'', ''d'', ''e'', ''f'', ''g'', ''h'', ''i'', ''j'']"
    by (simp add: tokens_of_def DELIMS_def)
  have u: "unat ARGV_SIZE = 10" and i: "uint ARGV_SIZE = 10"
    by (simp_all add: ARGV_SIZE_def)
  have h: "uint ARGV_SIZE < int (length (tokens_of ''a b c d e f g h i j k l''))"
    by (simp add: t1 i)
  have r: "runCommand \<lparr>mNumCommands = 0, mDispatchTable = [] :: nat DispatchRecord list\<rparr>
        ''a b c d e f g h i j'' = [Print ''Unknown command: '', Println ''a'']"
    by (simp add: runCommand_tokens t2 lookup_loop.simps)
  have e: "take (unat ARGV_SIZE) (tokens_of ''a b c d e f g h i j'')
      = take (unat ARGV_SIZE) (tokens_of ''a b c d e f g h i j k l'')"
    by (simp add: t1 t2 u)
  from tokenize_truncates_at_ARGV_SIZE [OF h, of "\<lparr>mNumCommands = 0, mDispatchTable = [] :: nat DispatchRecord list\<rparr>"]
  have "tokenize ''a b c d e f g h i j k l'' (uint ARGV_SIZE)
      = (uint ARGV_SIZE, take (unat ARGV_SIZE) (tokens_of ''a b c d e f g h i j k l''))"
    and "runCommand \<lparr>mNumCommands = 0, mDispatchTable = [] :: nat DispatchRecord list\<rparr>
        ''a b c d e f g h i j k l''
      = runCommand \<lparr>mNumCommands = 0, mDispatchTable = []\<rparr> ''a b c d e f g h i j''"
    using e by blast+
  then show ?thesis
    by (simp add: t1 u i r)
qed

text \<open>
  C5. A line whose first token is not \<open>help\<close> and is the name of no entry of the table
  prints the one diagnostic \<open>Unknown command: <token>\<close> and calls no handler; the
  coroutine is back at the head of its loop and goes on with the lines that follow.
\<close>

theorem unknown_command_reported:
  assumes "table_ok d"
    and "tokens_of line = t # ts"
    and "t \<noteq> ''help''"
    and "\<forall>r \<in> set (mDispatchTable d). name r \<noteq> t"
  shows "runCommand d line = [Print ''Unknown command: '', Println t]
    \<and> invocations (runCommand d line) = []
    \<and> serial_text (runCommand d line) = ''Unknown command: '' @ t @ [CHR 0x0D, CHR 0x0A]
    \<and> runRoutine d AWAIT_LINE (Success line)
        = (AWAIT_LINE, [Print ''Unknown command: '', Println t])
    \<and> run d AWAIT_LINE (Success line # ps)
        = (fst (run d AWAIT_LINE ps),
           [Print ''Unknown command: '', Println t] @ snd (run d AWAIT_LINE ps))"
proof -
  have "find (\<lambda>r. name r = t) (mDispatchTable d) = None"
    using assms(4) by (simp add: find_None_iff)
  then have "lookup_loop d argc argv t 0 = [Print ''Unknown command: '', Println t]"
    for argc argv
    by (simp add: lookup_loop_find [OF assms(1)])
  then have a: "runCommand d line = [Print ''Unknown command: '', Println t]"
    using assms(2,3) by (simp add: runCommand_tokens)
  show ?thesis
    by (simp add: a runRoutine_Success run_Cons_Success del: run.simps)
qed

theorem unknown_command_reported_witness:
  "table_ok \<lparr>mNumCommands = 1, mDispatchTable =
         [\<lparr>handler = 7 :: nat, name = ''list'', helpString = ''[all]''\<rparr>]\<rparr>
   \<and> tokens_of ''lst  all'' = [''lst'', ''all'']
   \<and> runCommand \<lparr>mNumCommands = 1, mDispatchTable =
         [\<lparr>handler = 7 :: nat, name = ''list'', helpString = ''[all]''\<rparr>]\<rparr> ''lst  all''
     = [Print ''Unknown command: '', Println ''lst'']"
proof -
  have ok: "table_ok \<lparr>mNumCommands = 1, mDispatchTable =
         [\<lparr>handler = 7 :: nat, name = ''list'', helpString = ''[all]''\<rparr>]\<rparr>"
    by (simp add: table_ok_def)
  have t: "tokens_of ''lst  all'' = [''lst'', ''all'']"
    by (simp add: tokens_of_def DELIMS_def)
  from unknown_command_reported [OF ok t] ok t show ?thesis
    by simp
qed

text \<open>
  C6. A line whose first token is \<open>help\<close> goes to the built-in help handler, before the
  table is looked at and whatever the table holds; no registered handler is called, so an
  entry named \<open>help\<close> is never reached.
\<close>

theorem help_is_intercepted:
  assumes "table_ok d" and "tokens_of line = ''help'' # args"
  shows "runCommand d line
       = helpCommandHandler d (int (length (take 10 (''help'' # args)))) (take 10 (''help'' # args))
    \<and> invocations (runCommand d line) = []
    \<and> invocations (snd (runRoutine d AWAIT_LINE (Success line))) = []"
proof -
  have a: "runCommand d line
       = helpCommandHandler d (int (length (take 10 (''help'' # args)))) (take 10 (''help'' # args))"
    by (simp add: runCommand_tokens assms(2))
  then show ?thesis
    by (simp only: runRoutine_Success snd_conv helpCommandHandler_no_invoke)
qed

theorem help_is_intercepted_witness:
  "table_ok \<lparr>mNumCommands = 1, mDispatchTable =
         [\<lparr>handler = 7 :: nat, name = ''help'', helpString = ''mine''\<rparr>]\<rparr>
   \<and> tokens_of ''help'' = [''help'']
   \<and> runCommand \<lparr>mNumCommands = 1, mDispatchTable =
         [\<lparr>handler = 7 :: nat, name = ''help'', helpString = ''mine''\<rparr>]\<rparr> ''help''
     = [Println ''Usage: help [command]'', Print ''Commands: help '',
        Print ''help'', Print '' '', Println []]
   \<and> invocations (runCommand \<lparr>mNumCommands = 1, mDispatchTable =
         [\<lparr>handler = 7 :: nat, name = ''help'', helpString = ''mine''\<rparr>]\<rparr> ''help'') = []"
proof -
  have t: "tokens_of ''help'' = [''help'']"
    by (simp add: tokens_of_def DELIMS_def)
  have h: "helpCommandHandler \<lparr>mNumCommands = 1, mDispatchTable =
         [\<lparr>handler = 7 :: nat, name = ''help'', helpString = ''mine''\<rparr>]\<rparr> 1 [''help'']
     = [Println ''Usage: help [command]'', Print ''Commands: help '',
        Print ''help'', Print '' '', Println []]"
    by (simp add: helpCommandHandler_def help_names.simps)
  have ok: "table_ok \<lparr>mNumCommands = 1, mDispatchTable =
         [\<lparr>handler = 7 :: nat, name = ''help'', helpString = ''mine''\<rparr>]\<rparr>"
    by (simp add: table_ok_def)
  from help_is_intercepted [OF ok t] ok
  show ?thesis
    by (simp add: t h)
qed

text \<open>
  C7. \<open>help\<close> called with \<open>argc\<close> other than 2 (so the line \<open>help\<close> alone) prints the
  usage banner, then \<open>Commands: help\<close> and every name of the table in its order;
  \<open>help help\<close> prints the fixed usage line; \<open>help <name>\<close> for a name of the table
  prints \<open>Usage: <name> <helpString>\<close> of the first entry of that name; for a name that
  is not in the table it prints \<open>Unknown command: <name>\<close>.
\<close>

theorem help_command_output:
  assumes "table_ok d"
  shows "(argc \<noteq> 2 \<longrightarrow>
            helpCommandHandler d argc argv
              = [Println ''Usage: help [command]'', Print ''Commands: help '']
                  @ concat (map (\<lambda>r. [Print (name r), Print '' '']) (mDispatchTable d))
                  @ [Println []]
          \<and> serial_text (helpCommandHandler d argc argv)
              = ''Usage: help [command]'' @ [CHR 0x0D, CHR 0x0A] @ ''Commands: help ''
                  @ concat (map (\<lambda>r. name r @ '' '') (mDispatchTable d)) @ [CHR 0x0D, CHR 0x0A])
    \<and> runCommand d ''help'' = helpCommandHandler d 1 [''help'']
    \<and> (n \<noteq> [] \<and> set n \<inter> set DELIMS = {} \<longrightarrow>
          runCommand d (''help '' @ n) = helpCommandHandler d 2 [''help'', n])
    \<and> helpCommandHandler d 2 [c0, ''help''] = [Println ''Usage: help [command]'']
    \<and> (i < length (mDispatchTable d) \<and> name (mDispatchTable d ! i) \<noteq> ''help''
          \<and> (\<forall>j<i. name (mDispatchTable d ! j) \<noteq> name (mDispatchTable d ! i)) \<longrightarrow>
            helpCommandHandler d 2 [c0, name (mDispatchTable d ! i)]
              = [Print ''Usage: '', Print (name (mDispatchTable d ! i)), Print '' '',
                 Println (helpString (mDispatchTable d ! i))]
          \<and> serial_text (helpCommandHandler d 2 [c0, name (mDispatchTable d ! i)])
              = ''Usage: '' @ name (mDispatchTable d ! i) @ '' ''
                  @ helpString (mDispatchTable d ! i) @ [CHR 0x0D, CHR 0x0A])
    \<and> (n \<noteq> ''help'' \<and> (\<forall>r \<in> set (mDispatchTable d). name r \<noteq> n) \<longrightarrow>
          helpCommandHandler d 2 [c0, n] = [Print ''Unknown command: '', Println n])"
proof -
  have ban: "helpCommandHandler d argc argv
              = [Println ''Usage: help [command]'', Print ''Commands: help '']
                  @ concat (map (\<lambda>r. [Print (name r), Print '' '']) (mDispatchTable d))
                  @ [Println []]" if "argc \<noteq> 2"
    using that by (simp add: helpCommandHandler_def help_names_drop [OF assms])
  have btxt: "serial_text (helpCommandHandler d argc argv)
              = ''Usage: help [command]'' @ [CHR 0x0D, CHR 0x0A] @ ''Commands: help ''
                  @ concat (map (\<lambda>r. name r @ '' '') (mDispatchTable d)) @ [CHR 0x0D, CHR 0x0A]"
    if "argc \<noteq> 2"
    by (simp add: ban [OF that] serial_text_names)
  have l1: "runCommand d ''help'' = helpCommandHandler d 1 [''help'']"
    by (simp add: runCommand_tokens tokens_of_def DELIMS_def)
  have l2: "runCommand d (''help '' @ n) = helpCommandHandler d 2 [''help'', n]"
    if "n \<noteq> []" "set n \<inter> set DELIMS = {}"
    by (simp only: runCommand_tokens tokens_of_help_arg [OF that]) simp
  have own: "helpCommandHandler d 2 [c0, ''help''] = [Println ''Usage: help [command]'']"
    by (simp add: helpCommandHandler_def)
  have use: "helpCommandHandler d 2 [c0, name (mDispatchTable d ! i)]
              = [Print ''Usage: '', Print (name (mDispatchTable d ! i)), Print '' '',
                 Println (helpString (mDispatchTable d ! i))]"
    if "i < length (mDispatchTable d)" "name (mDispatchTable d ! i) \<noteq> ''help''"
      "\<forall>j<i. name (mDispatchTable d ! j) \<noteq> name (mDispatchTable d ! i)"
  proof -
    have "find (\<lambda>r. name r = name (mDispatchTable d ! i)) (mDispatchTable d)
        = Some (mDispatchTable d ! i)"
      using that(1) _ that(3) by (rule find_first_index) simp
    then show ?thesis
      using that(2) by (simp add: helpCommandHandler_def help_usage_find [OF assms])
  qed
  have unk: "helpCommandHandler d 2 [c0, n] = [Print ''Unknown command: '', Println n]"
    if "n \<noteq> ''help''" "\<forall>r \<in> set (mDispatchTable d). name r \<noteq> n"
  proof -
    have "find (\<lambda>r. name r = n) (mDispatchTable d) = None"
      using that(2) by (simp add: find_None_iff)
    then show ?thesis
      using that(1) by (simp add: helpCommandHandler_def help_usage_find [OF assms])
  qed
  have use_txt: "serial_text (helpCommandHandler d 2 [c0, name (mDispatchTable d ! i)])
              = ''Usage: '' @ name (mDispatchTable d ! i) @ '' ''
                  @ helpString (mDispatchTable d ! i) @ [CHR 0x0D, CHR 0x0A]"
    if "i < length (mDispatchTable d)" "name (mDispatchTable d ! i) \<noteq> ''help''"
      "\<forall>j<i. name (mDispatchTable d ! j) \<noteq> name (mDispatchTable d ! i)"
    by (simp add: use [OF that])
  from ban btxt l1 l2 own use use_txt unk show ?thesis
    by blast
qed

theorem help_command_output_witness:
  "table_ok \<lparr>mNumCommands = 2, mDispatchTable =
       [\<lparr>handler = 7 :: nat, name = ''list'', helpString = ''[all]''\<rparr>,
        \<lparr>handler = 8, name = ''echo'', helpString = ''args''\<rparr>]\<rparr>
   \<and> runCommand \<lparr>mNumCommands = 2, mDispatchTable =
       [\<lparr>handler = 7 :: nat, name = ''list'', helpString = ''[all]''\<rparr>,
        \<lparr>handler = 8, name = ''echo'', helpString = ''args''\<rparr>]\<rparr> ''help''
     = [Println ''Usage: help [command]'', Print ''Commands: help '',
        Print ''list'', Print '' '', Print ''echo'', Print '' '', Println []]
   \<and> runCommand \<lparr>mNumCommands = 2, mDispatchTable =
       [\<lparr>handler = 7 :: nat, name = ''list'', helpString = ''[all]''\<rparr>,
        \<lparr>handler = 8, name = ''echo'', helpString = ''args''\<rparr>]\<rparr> ''help echo''
     = [Print ''Usage: '', Print ''echo'', Print '' '', Println ''args'']
   \<and> runCommand \<lparr>mNumCommands = 2, mDispatchTable =
       [\<lparr>handler = 7 :: nat, name = ''list'', helpString = ''[all]''\<rparr>,
        \<lparr>handler = 8, name = ''echo'', helpString = ''args''\<rparr>]\<rparr> ''help quit''
     = [Print ''Unknown command: '', Println ''quit'']"
proof -
  let ?d = "\<lparr>mNumCommands = 2, mDispatchTable =
       [\<lparr>handler = 7 :: nat, name = ''list'', helpString = ''[all]''\<rparr>,
        \<lparr>handler = 8, name = ''echo'', helpString = ''args''\<rparr>]\<rparr>"
  have ok: "table_ok ?d"
    by (simp add: table_ok_def)
  from help_command_output [OF ok, of 1 "[''help'']" "''echo''" "''help''" 1]
    help_command_output [OF ok, of 1 "[''help'']" "''quit''" "''help''" 1] ok
  show ?thesis
    by (simp add: DELIMS_def)
qed

text \<open>
  C8. After every error path the coroutine is back at the head of its loop, \<open>AWAIT_LINE\<close>,
  and goes on working. Whatever the line source answered before, and from either
  suspension point, once a whole line (\<open>Success\<close>) has come, a later line that names an
  entry of the table is cut into tokens and the handler of that entry is called with them,
  also when the line source has nothing to give for a while in between. This is spelled
  out for the three error paths: an overflow with its recovery (the loop stays in
  \<open>RECOVER_OVERFLOW\<close> while fragments overflow, prints them, and leaves at the first whole
  line), an unknown command, and a line without a token. No answers of the line source
  stop the loop: the command that comes afterwards is always run.
\<close>

theorem loop_resumes_dispatch_after_errors:
  assumes "table_ok d"
    and "tokens_of cmdline = t # ts"
    and "t \<noteq> ''help''"
    and "i < length (mDispatchTable d)"
    and "name (mDispatchTable d ! i) = t"
    and "\<forall>j<i. name (mDispatchTable d ! j) \<noteq> t"
  shows "fst (run d s (ps @ [Success line] @ replicate k NoLine)) = AWAIT_LINE
    \<and> run d s (ps @ [Success line] @ replicate k NoLine @ [Success cmdline])
        = (AWAIT_LINE,
           snd (run d s (ps @ [Success line]))
             @ [Invoke (handler (mDispatchTable d ! i))
                  (int (length (take 10 (t # ts)))) (take 10 (t # ts))])
    \<and> (set qs \<subseteq> insert NoLine (range Overflow) \<longrightarrow>
          fst (run d AWAIT_LINE (Overflow part # qs)) = RECOVER_OVERFLOW)
    \<and> run d AWAIT_LINE
          (Overflow part # map Overflow fs @ [Success rest] @ replicate k NoLine
             @ [Success cmdline])
        = (AWAIT_LINE,
           [Print ''BufferOverflow: '', Println part]
             @ concat (map (\<lambda>f. [Print ''FlushToEOL: '', Println f]) (fs @ [rest]))
             @ [Invoke (handler (mDispatchTable d ! i))
                  (int (length (take 10 (t # ts)))) (take 10 (t # ts))])
    \<and> (tokens_of bad = u # us \<and> u \<noteq> ''help''
          \<and> (\<forall>r \<in> set (mDispatchTable d). name r \<noteq> u) \<longrightarrow>
        run d AWAIT_LINE (Success bad # replicate k NoLine @ [Success cmdline])
          = (AWAIT_LINE,
             [Print ''Unknown command: '', Println u,
              Invoke (handler (mDispatchTable d ! i))
                (int (length (take 10 (t # ts)))) (take 10 (t # ts))]))
    \<and> (set blank \<subseteq> set DELIMS \<longrightarrow>
        run d AWAIT_LINE (Success blank # replicate k NoLine @ [Success cmdline])
          = (AWAIT_LINE,
             [Invoke (handler (mDispatchTable d ! i))
                (int (length (take 10 (t # ts)))) (take 10 (t # ts))]))"
proof -
  let ?inv = "Invoke (handler (mDispatchTable d ! i))
                (int (length (take 10 (t # ts)))) (take 10 (t # ts))"
  have rc: "runCommand d cmdline = [?inv]"
    using assms by (rule runCommand_registered)
  have tail: "run d AWAIT_LINE (replicate k NoLine @ [Success cmdline]) = (AWAIT_LINE, [?inv])"
    by (simp add: run_idle_then run_Cons runRoutine_Success rc del: run.simps(2))
  have st: "fst (run d s (ps @ [Success line])) = AWAIT_LINE"
    by (rule run_ends_Success)
  have "fst (run d s ((ps @ [Success line]) @ replicate k NoLine)) = AWAIT_LINE"
    by (simp only: run_append [of d s "ps @ [Success line]"] st run_idle fst_conv)
  then have a: "fst (run d s (ps @ [Success line] @ replicate k NoLine)) = AWAIT_LINE"
    by simp
  have "run d s ((ps @ [Success line]) @ (replicate k NoLine @ [Success cmdline]))
      = (AWAIT_LINE, snd (run d s (ps @ [Success line])) @ [?inv])"
    by (simp only: run_append [of d s "ps @ [Success line]"] st tail fst_conv snd_conv)
  then have b: "run d s (ps @ [Success line] @ replicate k NoLine @ [Success cmdline])
      = (AWAIT_LINE, snd (run d s (ps @ [Success line])) @ [?inv])"
    by simp
  have c: "fst (run d AWAIT_LINE (Overflow part # qs)) = RECOVER_OVERFLOW"
    if "set qs \<subseteq> insert NoLine (range Overflow)"
    using run_recovery_polls [OF that, of d]
    by (simp add: run_Cons runRoutine_def del: run.simps(2))
  have rec: "run d AWAIT_LINE (Overflow part # map Overflow fs @ [Success rest])
      = (AWAIT_LINE, [Print ''BufferOverflow: '', Println part]
             @ concat (map (\<lambda>f. [Print ''FlushToEOL: '', Println f]) (fs @ [rest])))"
    by (simp add: run_Cons [of d AWAIT_LINE] runRoutine_def printLineError_def
        run_recovery_output del: run.simps(2))
  have "run d AWAIT_LINE ((Overflow part # map Overflow fs @ [Success rest])
          @ (replicate k NoLine @ [Success cmdline]))
      = (AWAIT_LINE, [Print ''BufferOverflow: '', Println part]
             @ concat (map (\<lambda>f. [Print ''FlushToEOL: '', Println f]) (fs @ [rest])) @ [?inv])"
    by (simp only: run_append [of d AWAIT_LINE "Overflow part # map Overflow fs @ [Success rest]"]
        rec tail fst_conv snd_conv) simp
  then have e: "run d AWAIT_LINE
          (Overflow part # map Overflow fs @ [Success rest] @ replicate k NoLine
             @ [Success cmdline])
      = (AWAIT_LINE, [Print ''BufferOverflow: '', Println part]
             @ concat (map (\<lambda>f. [Print ''FlushToEOL: '', Println f]) (fs @ [rest])) @ [?inv])"
    by simp
  have f: "run d AWAIT_LINE (Success bad # replicate k NoLine @ [Success cmdline])
          = (AWAIT_LINE, [Print ''Unknown command: '', Println u, ?inv])"
    if "tokens_of bad = u # us" "u \<noteq> ''help''" "\<forall>r \<in> set (mDispatchTable d). name r \<noteq> u"
  proof -
    have "find (\<lambda>r. name r = u) (mDispatchTable d) = None"
      using that(3) by (simp add: find_None_iff)
    then have "lookup_loop d argc argv u 0 = [Print ''Unknown command: '', Println u]"
      for argc argv
      by (simp add: lookup_loop_find [OF assms(1)])
    then have "runCommand d bad = [Print ''Unknown command: '', Println u]"
      using that(1,2) by (simp add: runCommand_tokens)
    then show ?thesis
      by (simp add: run_Cons [of d AWAIT_LINE "Success bad"] runRoutine_Success tail
          del: run.simps(2))
  qed
  have g: "run d AWAIT_LINE (Success blank # replicate k NoLine @ [Success cmdline])
          = (AWAIT_LINE, [?inv])"
    if "set blank \<subseteq> set DELIMS"
  proof -
    have "tokens_of blank = []"
      using that by (simp add: tokens_of_def split_runs_Nil_iff)
    then have "runCommand d blank = []"
      by (simp add: runCommand_tokens)
    then show ?thesis
      by (simp add: run_Cons [of d AWAIT_LINE "Success blank"] runRoutine_Success tail
          del: run.simps(2))
  qed
  from a b c e f g show ?thesis
    by blast
qed

theorem loop_resumes_dispatch_after_errors_witness:
  "table_ok \<lparr>mNumCommands = 2, mDispatchTable =
       [\<lparr>handler = 7 :: nat, name = ''list'', helpString = ''[all]''\<rparr>,
        \<lparr>handler = 8, name = ''echo'', helpString = ''args''\<rparr>]\<rparr>
   \<and> tokens_of ''echo  x y'' = [''echo'', ''x'', ''y'']
   \<and> run \<lparr>mNumCommands = 2, mDispatchTable =
       [\<lparr>handler = 7 :: nat, name = ''list'', helpString = ''[all]''\<rparr>,
        \<lparr>handler = 8, name = ''echo'', helpString = ''args''\<rparr>]\<rparr> AWAIT_LINE
       [Overflow ''abc'', NoLine, Overflow ''def'', Success ''ghi'', Success ''bogus 1'',
        Success ''  '', NoLine, NoLine, Success ''echo  x y'']
     = (AWAIT_LINE,
        [Print ''BufferOverflow: '', Println ''abc'',
         Print ''FlushToEOL: '', Println ''def'',
         Print ''FlushToEOL: '', Println ''ghi'',
         Print ''Unknown command: '', Println ''bogus'',
         Invoke 8 3 [''echo'', ''x'', ''y'']])"
proof -
  let ?d = "\<lparr>mNumCommands = 2, mDispatchTable =
       [\<lparr>handler = 7 :: nat, name = ''list'', helpString = ''[all]''\<rparr>,
        \<lparr>handler = 8, name = ''echo'', helpString = ''args''\<rparr>]\<rparr>"
  have ok: "table_ok ?d"
    by (simp add: table_ok_def)
  have t: "tokens_of ''echo  x y'' = [''echo'', ''x'', ''y'']"
    by (simp add: tokens_of_def DELIMS_def)
  have h3: "''echo'' \<noteq> ''help''"
    by simp
  have h4: "1 < length (mDispatchTable ?d)"
    by simp
  have h5: "name (mDispatchTable ?d ! 1) = ''echo''"
    by simp
  have h6: "\<forall>j<1. name (mDispatchTable ?d ! j) \<noteq> ''echo''"
    by simp
  have before: "snd (run ?d AWAIT_LINE
       ([Overflow ''abc'', NoLine, Overflow ''def'', Success ''ghi'', Success ''bogus 1'']
          @ [Success ''  '']))
     = [Print ''BufferOverflow: '', Println ''abc'',
         Print ''FlushToEOL: '', Println ''def'',
         Print ''FlushToEOL: '', Println ''ghi'',
         Print ''Unknown command: '', Println ''bogus'']"
    by code_simp
  from loop_resumes_dispatch_after_errors [OF ok t h3 h4 h5 h6, of AWAIT_LINE
      "[Overflow ''abc'', NoLine, Overflow ''def'', Success ''ghi'', Success ''bogus 1'']"
      "''  ''" "Suc (Suc 0)"]
  have "run ?d AWAIT_LINE
       ([Overflow ''abc'', NoLine, Overflow ''def'', Success ''ghi'', Success ''bogus 1'']
          @ [Success ''  ''] @ replicate (Suc (Suc 0)) NoLine @ [Success ''echo  x y''])
     = (AWAIT_LINE,
        snd (run ?d AWAIT_LINE
          ([Overflow ''abc'', NoLine, Overflow ''def'', Success ''ghi'', Success ''bogus 1'']
             @ [Success ''  '']))
        @ [Invoke (handler (mDispatchTable ?d ! 1))
             (int (length (take 10 [''echo'', ''x'', ''y''])))
             (take 10 [''echo'', ''x'', ''y''])])"
    by (rule conjunct2 [THEN conjunct1])
  then have "run ?d AWAIT_LINE
       [Overflow ''abc'', NoLine, Overflow ''def'', Success ''ghi'', Success ''bogus 1'',
        Success ''  '', NoLine, NoLine, Success ''echo  x y'']
     = (AWAIT_LINE,
        [Print ''BufferOverflow: '', Println ''abc'',
         Print ''FlushToEOL: '', Println ''def'',
         Print ''FlushToEOL: '', Println ''ghi'',
         Print ''Unknown command: '', Println ''bogus'',
         Invoke 8 3 [''echo'', ''x'', ''y'']])"
    by (simp only: before) simp
  with ok t show ?thesis
    by (simp only: simp_thms)
qed

text \<open>
  C9. Every call of \<open>printLineError\<close> that the loop makes passes
  \<open>STATUS_BUFFER_OVERFLOW\<close> or \<open>STATUS_FLUSH_TO_EOL\<close>, so none of them prints
  \<open>UnknownError\<close>; and the events of a run are those of the calls of the loop.
\<close>

theorem printLineError_status_codes:
  "(PrintLineError line statusCode \<in> set (calls s ps) \<longrightarrow>
      (statusCode = STATUS_BUFFER_OVERFLOW \<or> statusCode = STATUS_FLUSH_TO_EOL)
      \<and> perform d (PrintLineError line statusCode) \<noteq> [Println ''UnknownError''])
   \<and> snd (run d s ps) = concat (map (perform d) (calls s ps))"
proof -
  have "perform d (PrintLineError line statusCode) \<noteq> [Println ''UnknownError'']"
    if "statusCode = STATUS_BUFFER_OVERFLOW \<or> statusCode = STATUS_FLUSH_TO_EOL"
    using that by (auto simp: printLineError_def)
  then show ?thesis
    using calls_status [of line statusCode s ps] run_calls [of d s ps] by blast
qed

theorem printLineError_status_codes_witness:
  "PrintLineError ''def'' STATUS_FLUSH_TO_EOL
      \<in> set (calls AWAIT_LINE [Overflow ''abc'', NoLine, Overflow ''def'', Success ''ghi''])
   \<and> perform \<lparr>mNumCommands = 0, mDispatchTable = [] :: nat DispatchRecord list\<rparr>
        (PrintLineError ''def'' STATUS_FLUSH_TO_EOL) \<noteq> [Println ''UnknownError'']"
proof -
  have h: "PrintLineError ''def'' STATUS_FLUSH_TO_EOL
      \<in> set (calls AWAIT_LINE [Overflow ''abc'', NoLine, Overflow ''def'', Success ''ghi''])"
    by simp
  from printLineError_status_codes [of "''def''" STATUS_FLUSH_TO_EOL AWAIT_LINE
      "[Overflow ''abc'', NoLine, Overflow ''def'', Success ''ghi'']"
      "\<lparr>mNumCommands = 0, mDispatchTable = [] :: nat DispatchRecord list\<rparr>"] h
  show ?thesis
    by blast
qed

text \<open>
  C10. A line without a token (\<open>argc = 0\<close>: the empty line, or delimiters only) does
  nothing: no handler is called and no text goes to the serial port.
\<close>

theorem empty_line_is_noop:
  assumes "fst (tokenize line (uint ARGV_SIZE)) = 0"
  shows "runCommand d line = []
    \<and> runRoutine d AWAIT_LINE (Success line) = (AWAIT_LINE, [])
    \<and> serial_text (snd (run d AWAIT_LINE [Success line])) = []
    \<and> invocations (snd (run d AWAIT_LINE [Success line])) = []
    \<and> set line \<subseteq> set DELIMS"
proof -
  have a: "runCommand d line = []"
    using assms by (cases "tokenize line (uint ARGV_SIZE)") (simp add: runCommand_def)
  have "min (length (tokens_of line)) 10 = 0"
    using assms by (simp add: tokenize_tokens ARGV_SIZE_def)
  then have "length (tokens_of line) = 0"
    by arith
  then have "tokens_of line = []"
    by simp
  then have b: "set line \<subseteq> set DELIMS"
    by (simp add: tokens_of_def split_runs_Nil_iff)
  from a b show ?thesis
    by (simp add: runRoutine_Success)
qed

theorem empty_line_is_noop_witness:
  "fst (tokenize [CHR '' '', CHR 0x09, CHR '' ''] (uint ARGV_SIZE)) = 0
   \<and> runCommand \<lparr>mNumCommands = 0, mDispatchTable = [] :: nat DispatchRecord list\<rparr>
        [CHR '' '', CHR 0x09, CHR '' ''] = []"
proof -
  have h: "fst (tokenize [CHR '' '', CHR 0x09, CHR '' ''] (uint ARGV_SIZE)) = 0"
    by (simp add: tokenize_tokens tokens_of_def DELIMS_def)
  from empty_line_is_noop [OF h, of "\<lparr>mNumCommands = 0, mDispatchTable = [] :: nat DispatchRecord list\<rparr>"] h
  show ?thesis
    by simp
qed

end
